theory Spec2Isabelle
  imports Main "HOL-Library.AList"
begin

section \<open>Python strings\<close>

text \<open>
  A Python \<open>str\<close> is a sequence of code points. It is modelled as a \<open>string\<close> whose
  characters stand for the code points U+0000 to U+00FF, so \<open>length\<close> counts what
  Python's \<open>len\<close> counts. The character classes below are Python's, restricted to
  that range.
\<close>

definition isdigit :: "char \<Rightarrow> bool" where
  \<comment> \<open>\<open>str.isdigit\<close>: the decimal digits and the superscripts U+00B2, U+00B3, U+00B9.\<close>
  "isdigit c \<longleftrightarrow> c \<in> set ''0123456789'' \<or> c \<in> {CHR 0xB2, CHR 0xB3, CHR 0xB9}"

definition isspace :: "char \<Rightarrow> bool" where
  \<comment> \<open>\<open>str.isspace\<close> and the class \<open>\s\<close> of \<open>re\<close> on \<open>str\<close> patterns.\<close>
  "isspace c \<longleftrightarrow>
     c \<in> {CHR 0x09, CHR 0x0A, CHR 0x0B, CHR 0x0C, CHR 0x0D, CHR 0x1C, CHR 0x1D, CHR 0x1E,
          CHR 0x1F, CHR 0x20, CHR 0x85, CHR 0xA0}"

definition lower :: "char \<Rightarrow> char" where
  \<comment> \<open>\<open>str.lower\<close> on one code point: A-Z and U+00C0..U+00DE (but not the
      multiplication sign U+00D7) move up by 32.\<close>
  "lower c = (let n = (of_char c :: nat) in
     if (65 \<le> n \<and> n \<le> 90) \<or> (192 \<le> n \<and> n \<le> 222 \<and> n \<noteq> 215)
     then char_of (n + 32) else c)"

definition upper :: "char \<Rightarrow> char" where
  \<comment> \<open>\<open>str.upper\<close> on one code point: a-z and U+00E0..U+00FE (but not the division
      sign U+00F7) move down by 32. Python sends U+00B5, U+00DF and U+00FF out of the
      modelled range; the program applies \<open>upper\<close> to a digit or to \<open>k\<close> only.\<close>
  "upper c = (let n = (of_char c :: nat) in
     if (97 \<le> n \<and> n \<le> 122) \<or> (224 \<le> n \<and> n \<le> 254 \<and> n \<noteq> 247)
     then char_of (n - 32) else c)"

fun join :: "string \<Rightarrow> string list \<Rightarrow> string" where
  \<comment> \<open>\<open>sep.join(xs)\<close>\<close>
  "join sep [] = []"
| "join sep [x] = x"
| "join sep (x # y # ys) = x @ sep @ join sep (y # ys)"

definition range_step :: "nat \<Rightarrow> nat \<Rightarrow> nat list" where
  \<comment> \<open>\<open>range(0, n, k)\<close> for a positive step \<open>k\<close>: 0, k, 2k, ... below n.\<close>
  "range_step n k = map (\<lambda>j. k * j) [0..<(n + (k - 1)) div k]"

section \<open>The identifier normalizer\<close>

definition format_rut_lenient :: "string \<Rightarrow> string option" where
  "format_rut_lenient raw =
     (if raw = [] then None
      else let s = filter (\<lambda>ch. isdigit ch \<or> ch = CHR ''k'') (map lower raw) in
        if length s < 2 then None
        else let body = butlast s; dv = upper (last s);
                 rv = rev body;
                 chunks = map (\<lambda>i. take 3 (drop i rv)) (range_step (length rv) 3);
                 dotted = join ''.'' (map rev (rev chunks))
             in Some (dotted @ ''-'' @ [dv]))"

section \<open>The canonical pattern\<close>

text \<open>
  The pattern \<open>\d{1,3}(\.\d{3})*-[0-9K]\<close> of the specification, matched against
  the whole string; \<open>\d\<close> is a decimal digit 0-9. \<open>tail_ok\<close> is the part
  \<open>(\.\d{3})*-[0-9K]\<close> up to the end of the string, \<open>head_ok n\<close> puts \<open>n\<close>
  leading digits in front of it.
\<close>

definition ascii_digit :: "char \<Rightarrow> bool" where
  "ascii_digit c \<longleftrightarrow> c \<in> set ''0123456789''"

fun tail_ok :: "string \<Rightarrow> bool" where
  "tail_ok [m, d] = (m = CHR ''-'' \<and> (ascii_digit d \<or> d = CHR ''K''))"
| "tail_ok (p # a # b # c # rest) =
     (p = CHR ''.'' \<and> ascii_digit a \<and> ascii_digit b \<and> ascii_digit c \<and> tail_ok rest)"
| "tail_ok _ = False"

definition head_ok :: "nat \<Rightarrow> string \<Rightarrow> bool" where
  "head_ok n s \<longleftrightarrow> n \<le> length s \<and> list_all ascii_digit (take n s) \<and> tail_ok (drop n s)"

definition matches_canonical :: "string \<Rightarrow> bool" where
  "matches_canonical s \<longleftrightarrow> head_ok 1 s \<or> head_ok 2 s \<or> head_ok 3 s"

text \<open>
  The input after lower-casing and keeping only digits and \<open>k\<close>, which is the string
  \<open>s\<close> of \<open>format_rut_lenient\<close>; \<open>keep\<close> is its filter.
\<close>

definition kept :: "string \<Rightarrow> string" where
  "kept raw = filter (\<lambda>ch. isdigit ch \<or> ch = CHR ''k'') (map lower raw)"

definition keep :: "char \<Rightarrow> bool" where
  "keep ch \<longleftrightarrow> isdigit ch \<or> ch = CHR ''k''"

text \<open>
  Two devices for the proofs: cutting a list into runs of three from the left, which
  is what the slices \<open>rev[i : i + 3]\<close> produce, and the string that
  \<open>format_rut_lenient\<close> builds from \<open>s\<close>.
\<close>

fun groups3 :: "'a list \<Rightarrow> 'a list list" where
  "groups3 xs = (if xs = [] then [] else take 3 xs # groups3 (drop 3 xs))"

declare groups3.simps [simp del]

definition render :: "string \<Rightarrow> string" where
  "render s = join ''.'' (map rev (rev (groups3 (rev (butlast s))))) @ ''-'' @ [upper (last s)]"


section \<open>The regular expressions of the extractor\<close>

text \<open>
  The program uses five patterns, the first three under \<open>re.IGNORECASE\<close>:
  \<^item> \<open>TR_RX = <tr[^>]*>([\s\S]*?)</tr>\<close>,
  \<^item> \<open>TD_RX = <td[^>]*>(.*?)</td>\<close> with \<open>re.DOTALL\<close>,
  \<^item> \<open><tr[^>]*>[\s\S]*?<td[^>]*>\<close> in \<open>ensure_has_tds\<close>,
  \<^item> \<open><[^>]+>\<close> and \<open>\s+\<close> in the two \<open>re.sub\<close> calls, which have no
    letters.
  Each is translated into the function that computes what Python's backtracking
  matcher returns for it. Both \<open>[\s\S]\<close> and, under \<open>DOTALL\<close>, \<open>.\<close> match every
  character.

  \<open>ci_prefix p s\<close> matches the literal \<open>p\<close>, given in lower case, at the start of
  \<open>s\<close> without regard to case, and returns what follows it.
\<close>

definition ci_prefix :: "string \<Rightarrow> string \<Rightarrow> string option" where
  "ci_prefix p s =
     (if length p \<le> length s \<and> map lower (take (length p) s) = p
      then Some (drop (length p) s) else None)"

text \<open>
  \<open><name[^>]*>\<close> at the start of \<open>s\<close>. The greedy \<open>[^>]*\<close> runs to the first
  \<open>>\<close>; a shorter run is followed by a character other than \<open>>\<close>, so backtracking
  finds no other match.
\<close>

definition open_tag :: "string \<Rightarrow> string \<Rightarrow> string option" where
  "open_tag name s =
     (case ci_prefix (CHR ''<'' # name) s of
        None \<Rightarrow> None
      | Some r \<Rightarrow> (case dropWhile (\<lambda>c. c \<noteq> CHR ''>'') r of [] \<Rightarrow> None | _ # r' \<Rightarrow> Some r'))"

text \<open>
  \<open>(.*?)close\<close> at the start of \<open>s\<close>: the lazy group grows one character at a time
  until the closing literal matches; the result is the group and what follows the match.
\<close>

fun lazy_until :: "string \<Rightarrow> string \<Rightarrow> (string \<times> string) option" where
  "lazy_until close [] = (case ci_prefix close [] of Some r \<Rightarrow> Some ([], r) | None \<Rightarrow> None)"
| "lazy_until close (c # t) =
     (case ci_prefix close (c # t) of
        Some r \<Rightarrow> Some ([], r)
      | None \<Rightarrow> (case lazy_until close t of None \<Rightarrow> None | Some (g, r) \<Rightarrow> Some (c # g, r)))"

text \<open>
  \<open>TR_RX\<close> matched at the start of \<open>s\<close> (group 1), and \<open>TR_RX.search\<close>, which
  tries every start position from the left.
\<close>

definition TR_RX_match :: "string \<Rightarrow> string option" where
  "TR_RX_match s =
     (case open_tag ''tr'' s of
        None \<Rightarrow> None
      | Some r \<Rightarrow> (case lazy_until ''</tr>'' r of None \<Rightarrow> None | Some (g, _) \<Rightarrow> Some g))"

fun TR_RX_search :: "string \<Rightarrow> string option" where
  "TR_RX_search [] = TR_RX_match []"
| "TR_RX_search (c # t) =
     (case TR_RX_match (c # t) of Some g \<Rightarrow> Some g | None \<Rightarrow> TR_RX_search t)"

text \<open>
  \<open>TD_RX\<close> matched at the start of \<open>s\<close> (group 1 and what follows the match), and
  \<open>TD_RX.finditer\<close>: the groups of the successive non-overlapping matches, each
  search resuming where the previous match ended.
\<close>

definition TD_RX_match :: "string \<Rightarrow> (string \<times> string) option" where
  "TD_RX_match s =
     (case open_tag ''td'' s of None \<Rightarrow> None | Some r \<Rightarrow> lazy_until ''</td>'' r)"

function TD_RX_finditer :: "string \<Rightarrow> string list" where
  "TD_RX_finditer [] = []"
| "TD_RX_finditer (c # t) =
     (case TD_RX_match (c # t) of
        Some (g, r) \<Rightarrow> g # TD_RX_finditer r
      | None \<Rightarrow> TD_RX_finditer t)"
  by pat_completeness auto
termination
proof (relation "measure length")
  show "wf (measure length)" by simp
next
  fix c :: char and t x2 g r
  assume m: "TD_RX_match (c # t) = Some x2" and x: "(g, r) = x2"
  have pre: "length q \<le> length s" if "ci_prefix p s = Some q" for p s q
    using that by (simp add: ci_prefix_def split: if_splits) auto
  have lazy: "length r' \<le> length s" if "lazy_until cl s = Some (g', r')" for cl s g' r'
    using that
  proof (induction s arbitrary: g')
    case Nil
    then show ?case by (simp add: ci_prefix_def split: option.splits if_splits)
  next
    case (Cons a s)
    show ?case
    proof (cases "ci_prefix cl (a # s)")
      case None
      with Cons.prems obtain g'' where "lazy_until cl s = Some (g'', r')"
        by (simp split: option.splits prod.splits)
      from Cons.IH [OF this] show ?thesis by simp
    next
      case (Some q)
      with Cons.prems have "q = r'" by simp
      with pre [OF Some] show ?thesis by simp
    qed
  qed
  from m x obtain q where o: "open_tag ''td'' (c # t) = Some q"
    and l: "lazy_until ''</td>'' q = Some (g, r)"
    by (simp add: TD_RX_match_def split: option.splits)
  from o obtain p y where p: "ci_prefix ''<td'' (c # t) = Some p"
    and d: "dropWhile (\<lambda>c. c \<noteq> CHR ''>'') p = y # q"
    by (auto simp: open_tag_def split: option.splits list.splits)
  have "length q < length (dropWhile (\<lambda>c. c \<noteq> CHR ''>'') p)" unfolding d by simp
  also have "\<dots> \<le> length p" by (rule length_dropWhile_le)
  also have "\<dots> \<le> length (c # t)" using p by (rule pre)
  finally have "length q < length (c # t)" .
  with lazy [OF l] show "(r, c # t) \<in> measure length" by simp
next
  fix c :: char and t
  show "(t, c # t) \<in> measure length" by simp
qed

text \<open>
  \<open>re.sub(r"<[^>]+>", "", txt)\<close>: \<open>tag_match\<close> is the pattern at the start of \<open>s\<close>
  (at least one character other than \<open>>\<close> between the brackets), \<open>strip_tags\<close>
  deletes every match from the left.
\<close>

definition tag_match :: "string \<Rightarrow> string option" where
  "tag_match s =
     (case s of
        [] \<Rightarrow> None
      | c # t \<Rightarrow>
          if c = CHR ''<'' \<and> takeWhile (\<lambda>c. c \<noteq> CHR ''>'') t \<noteq> []
          then (case dropWhile (\<lambda>c. c \<noteq> CHR ''>'') t of [] \<Rightarrow> None | _ # r \<Rightarrow> Some r)
          else None)"

function strip_tags :: "string \<Rightarrow> string" where
  "strip_tags [] = []"
| "strip_tags (c # t) =
     (case tag_match (c # t) of Some r \<Rightarrow> strip_tags r | None \<Rightarrow> c # strip_tags t)"
  by pat_completeness auto
termination
proof (relation "measure length")
  show "wf (measure length)" by simp
next
  fix c :: char and t r
  assume "tag_match (c # t) = Some r"
  then obtain y where d: "dropWhile (\<lambda>c. c \<noteq> CHR ''>'') t = y # r"
    by (auto simp: tag_match_def split: if_splits list.splits)
  have "length r < length (dropWhile (\<lambda>c. c \<noteq> CHR ''>'') t)" unfolding d by simp
  also have "\<dots> \<le> length t" by (rule length_dropWhile_le)
  finally show "(r, c # t) \<in> measure length" by simp
next
  fix c :: char and t
  show "(t, c # t) \<in> measure length" by simp
qed

text \<open>
  \<open>re.sub(r"\s+", " ", x)\<close>, \<open>x.replace("\u00A0", " ")\<close> and \<open>x.strip()\<close>.
\<close>

function sub_spaces :: "string \<Rightarrow> string" where
  "sub_spaces [] = []"
| "sub_spaces (c # t) =
     (if isspace c then CHR '' '' # sub_spaces (dropWhile isspace t) else c # sub_spaces t)"
  by pat_completeness auto
termination
proof (relation "measure length")
  show "wf (measure length)" by simp
next
  fix c :: char and t
  have "length (dropWhile isspace t) \<le> length t" by (rule length_dropWhile_le)
  then show "(dropWhile isspace t, c # t) \<in> measure length" by simp
next
  fix c :: char and t
  show "(t, c # t) \<in> measure length" by simp
qed

definition replace_nbsp :: "string \<Rightarrow> string" where
  "replace_nbsp s = map (\<lambda>c. if c = CHR 0xA0 then CHR '' '' else c) s"

definition strip :: "string \<Rightarrow> string" where
  "strip s = rev (dropWhile isspace (rev (dropWhile isspace s)))"

text \<open>
  The pattern of \<open>ensure_has_tds\<close>: \<open>has_open_tag name s\<close> is
  \<open>[\s\S]*?<name[^>]*>\<close> at the start of \<open>s\<close> (the lazy run grows until the tag
  matches), \<open>TDS_RX_match\<close> the whole pattern at the start of \<open>s\<close>, and
  \<open>TDS_RX_search\<close> is \<open>re.search\<close> as a truth value.
\<close>

fun has_open_tag :: "string \<Rightarrow> string \<Rightarrow> bool" where
  "has_open_tag name [] = (case open_tag name [] of Some _ \<Rightarrow> True | None \<Rightarrow> False)"
| "has_open_tag name (c # t) =
     (case open_tag name (c # t) of Some _ \<Rightarrow> True | None \<Rightarrow> has_open_tag name t)"

definition TDS_RX_match :: "string \<Rightarrow> bool" where
  "TDS_RX_match s = (case open_tag ''tr'' s of None \<Rightarrow> False | Some r \<Rightarrow> has_open_tag ''td'' r)"

fun TDS_RX_search :: "string \<Rightarrow> bool" where
  "TDS_RX_search [] = TDS_RX_match []"
| "TDS_RX_search (c # t) = (if TDS_RX_match (c # t) then True else TDS_RX_search t)"

section \<open>The table extractor\<close>

definition ensure_has_tds :: "string \<Rightarrow> bool" where
  "ensure_has_tds html = TDS_RX_search html"

definition extract_first_tr_values :: "string \<Rightarrow> string list" where
  "extract_first_tr_values html =
     (case TR_RX_search html of
        None \<Rightarrow> []
      | Some tr_content \<Rightarrow>
          filter (\<lambda>clean. clean \<noteq> [])
            (map (\<lambda>txt. strip (sub_spaces (replace_nbsp (strip_tags txt))))
               (TD_RX_finditer tr_content)))"


section \<open>The record mapper\<close>

text \<open>
  \<open>str_nat\<close> is the decimal numeral that the f-string \<open>f"campo{i+1}"\<close> prints. A
  \<open>dict\<close> is an association list in insertion order: \<open>AList.update\<close> appends a new
  key and overwrites the value of an existing one in place, as a Python \<open>dict\<close> does.
  The dict display with its five distinct literal keys is written as the list itself.
  The five names of the tuple assignment are the five elements of the slice
  \<open>values[:5]\<close>, which has exactly five elements under the guard.
\<close>

fun str_nat :: "nat \<Rightarrow> string" where
  "str_nat n = (if n < 10 then [char_of (48 + n)] else str_nat (n div 10) @ [char_of (48 + n mod 10)])"

declare str_nat.simps [simp del]

definition map_values :: "string list \<Rightarrow> (string \<times> string) list" where
  "map_values values =
     (if 5 \<le> length values
      then (let first5 = take 5 values;
                nombre = first5 ! 0; rut_resp = first5 ! 1; genero = first5 ! 2;
                direccion = first5 ! 3; comuna = first5 ! 4
            in [(''nombre'', nombre), (''rut'', rut_resp), (''genero'', genero),
                (''direccion'', direccion), (''comuna'', comuna)])
      else foldl (\<lambda>d (i, v). AList.update (''campo'' @ str_nat (i + 1)) v d) []
             (List.enumerate 0 values))"

section \<open>The endpoints\<close>

text \<open>
  The handlers return a \<open>dict\<close> with values of several types (\<open>Dict[str, Any]\<close>);
  \<open>pyval\<close> holds the ones that occur.

  The two fetchers talk to the network and to a browser. They are the environment of a
  request: \<open>fetch_via_requests\<close> gives, for a URL, the response (status code and text),
  a \<open>requests.RequestException\<close>, or any other exception;
  \<open>fetch_via_playwright\<close> gives the rendered HTML or an exception (the
  \<open>RuntimeError\<close> of a missing Playwright among them).

  A handler returns the list of fetcher calls it made, in order, and its outcome: the
  returned payload, a raised \<open>HTTPException\<close> with status code and detail, or an
  exception of a fetcher that it lets through. Writing to standard output is left out.
\<close>

datatype pyval = PyStr string | PyInt int | PyList "string list" | PyDict "(string \<times> string) list"

type_synonym payload = "(string \<times> pyval) list"

datatype direct_outcome = Response int string | RequestException string | OtherException string

datatype browser_outcome = Html string | Failed string

record env =
  fetch_via_requests :: "string \<Rightarrow> direct_outcome"
  fetch_via_playwright :: "string \<Rightarrow> browser_outcome"

datatype call = Requests string | Playwright string

datatype result =
    Returned payload
  | HTTPException int string
  | DirectError string
  | BrowserError string

definition RUT_URL :: "string \<Rightarrow> string" where
  "RUT_URL rut = ''https://r.rutificador.co/pr/'' @ rut"

text \<open>
  \<open>get_rut_fallback\<close> is the second half of \<open>get_rut\<close>, from the call of
  \<open>fetch_via_playwright\<close> on; it is reached when the first half neither returns nor
  raises.
\<close>

definition get_rut_fallback ::
    "env \<Rightarrow> string \<Rightarrow> string \<Rightarrow> bool \<Rightarrow> call list \<times> result" where
  "get_rut_fallback env url formatted inspect =
     (case fetch_via_playwright env url of
        Failed e \<Rightarrow> ([Requests url, Playwright url], BrowserError e)
      | Html html \<Rightarrow>
          if \<not> ensure_has_tds html then
            (if inspect then
               ([Requests url, Playwright url],
                Returned [(''source'', PyStr url), (''rut_consultado'', PyStr formatted),
                          (''message'', PyStr ''No se detectaron <td> incluso con Playwright.''),
                          (''snippet'', PyStr (take 1200 html))])
             else
               ([Requests url, Playwright url],
                HTTPException 400
                  ''No se encontraron filas <tr> con columnas <td> en la respuesta''))
          else
            (let vals = extract_first_tr_values html in
             if vals = [] then
               ([Requests url, Playwright url],
                HTTPException 400 ''La fila no contiene columnas <td>'')
             else
               ([Requests url, Playwright url],
                Returned [(''source'', PyStr url), (''rut_consultado'', PyStr formatted),
                          (''columnas'', PyInt (int (length vals))),
                          (''data'', PyDict (map_values vals)), (''raw'', PyList vals)])))"

definition get_rut :: "env \<Rightarrow> string \<Rightarrow> bool \<Rightarrow> call list \<times> result" where
  "get_rut env rut inspect =
     (case format_rut_lenient rut of
        None \<Rightarrow> ([], HTTPException 400 (''RUT inv'' @ [CHR 0xE1] @ ''lido''))
      | Some formatted \<Rightarrow>
          if formatted = [] then ([], HTTPException 400 (''RUT inv'' @ [CHR 0xE1] @ ''lido''))
          else
            (let url = RUT_URL formatted in
             case fetch_via_requests env url of
               Response status_code html \<Rightarrow>
                 if status_code \<noteq> 403 \<and> ensure_has_tds html then
                   (let vals = extract_first_tr_values html in
                    if vals = [] then
                      ([Requests url],
                       HTTPException 400
                         (''No se encontraron columnas <td> v'' @ [CHR 0xE1] @ ''lidas''))
                    else
                      ([Requests url],
                       Returned [(''source'', PyStr url), (''rut_consultado'', PyStr formatted),
                                 (''columnas'', PyInt (int (length vals))),
                                 (''data'', PyDict (map_values vals)), (''raw'', PyList vals)]))
                 else get_rut_fallback env url formatted inspect
             | RequestException e \<Rightarrow> get_rut_fallback env url formatted inspect
             | OtherException e \<Rightarrow> ([Requests url], DirectError e)))"

definition get_rut_raw :: "env \<Rightarrow> string \<Rightarrow> call list \<times> result" where
  "get_rut_raw env rut =
     (case format_rut_lenient rut of
        None \<Rightarrow> ([], HTTPException 400 (''RUT inv'' @ [CHR 0xE1] @ ''lido''))
      | Some formatted \<Rightarrow>
          if formatted = [] then ([], HTTPException 400 (''RUT inv'' @ [CHR 0xE1] @ ''lido''))
          else
            (let url = RUT_URL formatted;
                 fallback =
                   (case fetch_via_playwright env url of
                      Failed e \<Rightarrow> ([Requests url, Playwright url], BrowserError e)
                    | Html html \<Rightarrow>
                        ([Requests url, Playwright url],
                         Returned [(''status'', PyInt 200), (''source'', PyStr url),
                                   (''html'', PyStr (take 20000 html))]))
             in
             case fetch_via_requests env url of
               Response status_code html \<Rightarrow>
                 if status_code \<noteq> 403 \<and> html \<noteq> [] then
                   ([Requests url],
                    Returned [(''status'', PyInt status_code), (''source'', PyStr url),
                              (''html'', PyStr (take 20000 html))])
                 else fallback
             | RequestException e \<Rightarrow> fallback
             | OtherException e \<Rightarrow> ([Requests url], DirectError e)))"

text \<open>
  Whether the first half of \<open>get_rut\<close> falls through to the browser tier, as a
  property of what the direct fetch gave.
\<close>

definition escalates :: "direct_outcome \<Rightarrow> bool" where
  "escalates d =
     (case d of
        Response status_code html \<Rightarrow> status_code = 403 \<or> \<not> ensure_has_tds html
      | RequestException e \<Rightarrow> True
      | OtherException e \<Rightarrow> False)"

text \<open>
  The same for \<open>get_rut_raw\<close>, whose first half tests the body for emptiness only.
\<close>

definition escalates_raw :: "direct_outcome \<Rightarrow> bool" where
  "escalates_raw d =
     (case d of
        Response status_code html \<Rightarrow> status_code = 403 \<or> html = []
      | RequestException e \<Rightarrow> True
      | OtherException e \<Rightarrow> False)"

section \<open>Normalizer: the documented examples\<close>

text \<open>
  C7: \<open>format_rut_lenient\<close> maps each of \<open>15421741K\<close>, \<open>15.421.741-K\<close> and
  \<open>15421741-K\<close> to the same canonical string \<open>15.421.741-K\<close>.
\<close>

theorem format_rut_lenient_examples:
  "format_rut_lenient ''15421741K'' = Some ''15.421.741-K'' \<and>
   format_rut_lenient ''15.421.741-K'' = Some ''15.421.741-K'' \<and>
   format_rut_lenient ''15421741-K'' = Some ''15.421.741-K''"
  by code_simp

section \<open>Normalizer: shape of the canonical string\<close>

lemma chunks_groups3:
  "map (\<lambda>i. take 3 (drop i xs)) (range_step (length xs) 3) = groups3 xs"
proof (induction xs rule: groups3.induct)
  case (1 xs)
  show ?case
  proof (cases "xs = []")
    case True
    then show ?thesis by (simp add: range_step_def groups3.simps)
  next
    case False
    then have "0 < length xs" by simp
    then have len: "(length xs + 2) div 3 = Suc ((length (drop 3 xs) + 2) div 3)"
      unfolding length_drop by presburger
    have "map (\<lambda>i. take 3 (drop i xs)) (range_step (length xs) 3)
        = take 3 xs # map (\<lambda>i. take 3 (drop i (drop 3 xs))) (range_step (length (drop 3 xs)) 3)"
      unfolding range_step_def using len
      by (simp add: upt_conv_Cons map_Suc_upt[symmetric] del: upt_Suc add: comp_def add.commute)
    then show ?thesis using 1 False by (simp add: groups3.simps[of xs])
  qed
qed

lemma concat_groups3: "concat (groups3 xs) = xs"
  by (induction xs rule: groups3.induct) (subst groups3.simps, simp)


lemma format_rut_lenient_render:
  "format_rut_lenient raw = (if length (kept raw) < 2 then None else Some (render (kept raw)))"
  by (cases "raw = []") (simp_all add: format_rut_lenient_def kept_def render_def chunks_groups3 Let_def)

lemma join_Cons: "join sep (g # gs) = g @ concat (map (\<lambda>h. sep @ h) gs)"
  by (induction gs arbitrary: g) simp_all

lemma groups3_shape:
  "xs \<noteq> [] \<Longrightarrow>
     groups3 xs \<noteq> [] \<and> (\<forall>g \<in> set (butlast (groups3 xs)). length g = 3) \<and>
     1 \<le> length (last (groups3 xs)) \<and> length (last (groups3 xs)) \<le> 3"
proof (induction xs rule: groups3.induct)
  case (1 xs)
  show ?case
  proof (cases "drop 3 xs = []")
    case True
    then have "groups3 xs = [take 3 xs]"
      using "1.prems" by (simp add: groups3.simps[of xs] groups3.simps[of "[]"])
    then show ?thesis using "1.prems" by (simp add: Suc_le_eq)
  next
    case False
    then have "3 < length xs" by simp
    then have "length (take 3 xs) = 3" by simp
    moreover have "groups3 xs = take 3 xs # groups3 (drop 3 xs)"
      using "1.prems" by (simp add: groups3.simps[of xs])
    ultimately show ?thesis using "1.IH"[OF "1.prems" False] by simp
  qed
qed

lemma set_groups3: "g \<in> set (groups3 xs) \<Longrightarrow> set g \<subseteq> set xs"
proof -
  assume "g \<in> set (groups3 xs)"
  then have "set g \<subseteq> set (concat (groups3 xs))" by auto
  then show ?thesis by (simp only: concat_groups3)
qed

lemma tail_ok_groups:
  assumes "\<forall>g \<in> set gs. length g = 3 \<and> list_all ascii_digit g"
      and "ascii_digit d \<or> d = CHR ''K''"
  shows "tail_ok (concat (map (\<lambda>h. CHR ''.'' # h) gs) @ ''-'' @ [d])"
  using assms
proof (induction gs)
  case Nil
  then show ?case by simp
next
  case (Cons g gs)
  then have "length g = 3" by simp
  then obtain a b c where g: "g = [a, b, c]"
    by (metis (no_types, opaque_lifting) length_0_conv length_Suc_conv numeral_3_eq_3)
  with Cons show ?case by simp
qed

lemma tail_ok_chars:
  "tail_ok t \<Longrightarrow>
     (\<forall>c \<in> set t. ascii_digit c \<or> c = CHR ''.'' \<or> c = CHR ''-'' \<or> c = CHR ''K'') \<and>
     t \<noteq> [] \<and> (ascii_digit (last t) \<or> last t = CHR ''K'')"
  by (induction t rule: tail_ok.induct) auto

lemma matches_canonical_chars:
  assumes "matches_canonical s"
  shows "(\<forall>c \<in> set s. ascii_digit c \<or> c = CHR ''.'' \<or> c = CHR ''-'' \<or> c = CHR ''K'') \<and>
         s \<noteq> [] \<and> (ascii_digit (last s) \<or> last s = CHR ''K'')"
proof -
  from assms obtain n where n: "list_all ascii_digit (take n s)" "tail_ok (drop n s)"
    unfolding matches_canonical_def head_ok_def by blast
  have s: "s = take n s @ drop n s" by simp
  from tail_ok_chars[OF n(2)] have t:
    "\<forall>c \<in> set (drop n s). ascii_digit c \<or> c = CHR ''.'' \<or> c = CHR ''-'' \<or> c = CHR ''K''"
    "drop n s \<noteq> []" "ascii_digit (last (drop n s)) \<or> last (drop n s) = CHR ''K''"
    by blast+
  have h: "\<forall>c \<in> set (take n s). ascii_digit c" using n(1) by (simp add: list_all_iff)
  have "set s = set (take n s) \<union> set (drop n s)"
    by (metis append_take_drop_id set_append)
  then have "\<forall>c \<in> set s. ascii_digit c \<or> c = CHR ''.'' \<or> c = CHR ''-'' \<or> c = CHR ''K''"
    using h t(1) by blast
  moreover have "last s = last (drop n s)" using t(2) by simp
  moreover have "s \<noteq> []" using t(2) by auto
  ultimately show ?thesis using t(3) by simp
qed

lemma upper_values:
  "upper (CHR ''k'') = CHR ''K''" "upper (CHR ''0'') = CHR ''0''" "upper (CHR ''1'') = CHR ''1''"
  "upper (CHR ''2'') = CHR ''2''" "upper (CHR ''3'') = CHR ''3''" "upper (CHR ''4'') = CHR ''4''"
  "upper (CHR ''5'') = CHR ''5''" "upper (CHR ''6'') = CHR ''6''" "upper (CHR ''7'') = CHR ''7''"
  "upper (CHR ''8'') = CHR ''8''" "upper (CHR ''9'') = CHR ''9''" "upper (CHR 0xB2) = CHR 0xB2"
  "upper (CHR 0xB3) = CHR 0xB3" "upper (CHR 0xB9) = CHR 0xB9"
  by code_simp+

lemma lower_values:
  "lower (CHR ''k'') = CHR ''k''" "lower (CHR ''0'') = CHR ''0''" "lower (CHR ''1'') = CHR ''1''"
  "lower (CHR ''2'') = CHR ''2''" "lower (CHR ''3'') = CHR ''3''" "lower (CHR ''4'') = CHR ''4''"
  "lower (CHR ''5'') = CHR ''5''" "lower (CHR ''6'') = CHR ''6''" "lower (CHR ''7'') = CHR ''7''"
  "lower (CHR ''8'') = CHR ''8''" "lower (CHR ''9'') = CHR ''9''" "lower (CHR 0xB2) = CHR 0xB2"
  "lower (CHR 0xB3) = CHR 0xB3" "lower (CHR 0xB9) = CHR 0xB9"
  "lower (CHR ''K'') = CHR ''k''" "lower (CHR ''.'') = CHR ''.''" "lower (CHR ''-'') = CHR ''-''"
  by code_simp+

lemma keep_cases:
  "keep c \<longleftrightarrow> c \<in> set (''k0123456789'' @ [CHR 0xB2, CHR 0xB3, CHR 0xB9])"
  by (auto simp: keep_def isdigit_def)

lemma keep_lower: "keep c \<Longrightarrow> lower c = c"
  unfolding keep_cases list.set append.simps by (elim insertE emptyE; simp add: lower_values)

lemma keep_upper: "keep c \<Longrightarrow> lower (upper c) = c"
  unfolding keep_cases list.set append.simps by (elim insertE emptyE; simp add: lower_values upper_values)

lemma keep_upper_canonical:
  "keep c \<Longrightarrow> (ascii_digit (upper c) \<or> upper c = CHR ''K'') \<longleftrightarrow> (ascii_digit c \<or> c = CHR ''k'')"
  unfolding keep_cases list.set append.simps by (elim insertE emptyE; simp add: upper_values ascii_digit_def)

lemma keep_canonical_char:
  "keep c \<Longrightarrow> ascii_digit c \<or> c = CHR ''.'' \<or> c = CHR ''-'' \<or> c = CHR ''K'' \<Longrightarrow> ascii_digit c"
  unfolding keep_cases list.set append.simps by (elim insertE emptyE; simp add: ascii_digit_def)


lemma filter_join:
  assumes "\<forall>g \<in> set gs. \<forall>c \<in> set g. P c" and "\<forall>c \<in> set sep. \<not> P c"
  shows "filter P (join sep gs) = concat gs"
  using assms by (induction sep gs rule: join.induct) (simp_all add: filter_empty_conv)

lemma map_lower_keep: "\<forall>c \<in> set xs. keep c \<or> c = CHR ''.'' \<Longrightarrow> map lower xs = xs"
  by (induction xs) (auto simp: keep_lower lower_values)

lemma set_join: "set (join sep gs) \<subseteq> set sep \<union> \<Union> (set ` set gs)"
  by (induction sep gs rule: join.induct) auto

lemma kept_keep: "c \<in> set (kept raw) \<Longrightarrow> keep c"
  by (simp add: kept_def keep_def)

lemma kept_render:
  assumes "\<forall>c \<in> set s. keep c" and "2 \<le> length s"
  shows "kept (render s) = s"
proof -
  define gs where "gs = map rev (rev (groups3 (rev (butlast s))))"
  have s: "s = butlast s @ [last s]" using assms(2) by (cases s) auto
  have body: "\<forall>c \<in> set (butlast s). keep c" using assms(1) by (meson in_set_butlastD)
  have dv: "keep (last s)" using assms by (cases s) auto
  have cat: "concat gs = butlast s"
    unfolding gs_def by (simp add: rev_concat[symmetric] concat_groups3)
  have gs_keep: "\<forall>g \<in> set gs. \<forall>c \<in> set g. keep c"
  proof (intro ballI)
    fix g c assume "g \<in> set gs" "c \<in> set g"
    then have "c \<in> set (concat gs)" by auto
    then show "keep c" using body cat by simp
  qed
  have "\<forall>c \<in> set (join ''.'' gs). keep c \<or> c = CHR ''.''"
    using set_join[of "''.''" gs] gs_keep by auto
  then have low: "map lower (join ''.'' gs) = join ''.'' gs" by (rule map_lower_keep)
  have "\<forall>c \<in> set ''.''. \<not> keep c" by (simp add: keep_cases)
  with gs_keep have fil: "filter keep (join ''.'' gs) = butlast s"
    using filter_join[of gs keep "''.''"] cat by simp
  have "\<not> keep (CHR ''-'')" by (simp add: keep_cases)
  then have "kept (render s) = butlast s @ [last s]"
    unfolding kept_def render_def gs_def[symmetric] keep_def[symmetric]
    using low fil dv by (simp add: lower_values keep_upper)
  with s show ?thesis by simp
qed

text \<open>
  C6: \<open>format_rut_lenient\<close> is idempotent on its outputs: when normalization of an
  input succeeds with a canonical string, normalizing that canonical string succeeds
  and returns it unchanged.
\<close>

theorem format_rut_lenient_idempotent:
  "format_rut_lenient raw = Some out \<Longrightarrow> format_rut_lenient out = Some out"
proof -
  assume a: "format_rut_lenient raw = Some out"
  then have len: "2 \<le> length (kept raw)" and out: "out = render (kept raw)"
    by (auto simp: format_rut_lenient_render split: if_splits)
  have "kept out = kept raw"
    unfolding out using kept_keep len by (intro kept_render) auto
  then show ?thesis using len out by (simp add: format_rut_lenient_render)
qed

lemma render_matches:
  assumes "\<forall>c \<in> set s. keep c" and "2 \<le> length s"
  shows "matches_canonical (render s) \<longleftrightarrow>
           list_all ascii_digit (butlast s) \<and> (ascii_digit (last s) \<or> last s = CHR ''k'')"
proof -
  define cs where "cs = groups3 (rev (butlast s))"
  define gs where "gs = map rev (rev (butlast cs))"
  define g where "g = rev (last cs)"
  define t where "t = concat (map (\<lambda>h. CHR ''.'' # h) gs) @ ''-'' @ [upper (last s)]"
  have body_ne: "rev (butlast s) \<noteq> []" using assms(2) by (cases s) auto
  have dv: "keep (last s)" using assms by (cases s) auto
  note shape = groups3_shape[OF body_ne, folded cs_def]
  then have cs: "cs = butlast cs @ [last cs]" by simp
  have "map rev (rev cs) = g # gs"
    by (subst cs) (simp add: g_def gs_def)
  then have r: "render s = g @ t"
    unfolding render_def cs_def[symmetric] t_def by (simp add: join_Cons)
  have glen: "1 \<le> length g" "length g \<le> 3" using shape by (simp_all add: g_def)
  have gslen: "\<forall>h \<in> set gs. length h = 3" using shape by (auto simp: gs_def)
  have sub: "set g \<union> \<Union> (set ` set gs) = set (butlast s)"
  proof -
    have "set (concat (map rev (rev cs))) = set (butlast s)"
      by (simp add: rev_concat[symmetric] cs_def concat_groups3)
    then show ?thesis unfolding \<open>map rev (rev cs) = g # gs\<close> by simp
  qed
  show ?thesis
  proof
    assume m: "matches_canonical (render s)"
    note ch = matches_canonical_chars[OF m]
    have "set (butlast s) \<subseteq> set (render s)"
      unfolding r t_def using sub by auto
    moreover have "\<forall>c \<in> set (butlast s). keep c" using assms(1) by (meson in_set_butlastD)
    ultimately have "\<forall>c \<in> set (butlast s). ascii_digit c"
      using ch keep_canonical_char by blast
    moreover have "last (render s) = upper (last s)" by (simp add: render_def)
    then have "ascii_digit (last s) \<or> last s = CHR ''k''"
      using ch keep_upper_canonical[OF dv] by simp
    ultimately show "list_all ascii_digit (butlast s) \<and> (ascii_digit (last s) \<or> last s = CHR ''k'')"
      by (simp add: list_all_iff)
  next
    assume a: "list_all ascii_digit (butlast s) \<and> (ascii_digit (last s) \<or> last s = CHR ''k'')"
    then have dig: "\<forall>c \<in> set (butlast s). ascii_digit c" by (simp add: list_all_iff)
    have "ascii_digit (upper (last s)) \<or> upper (last s) = CHR ''K''"
      using a keep_upper_canonical[OF dv] by simp
    moreover have "\<forall>h \<in> set gs. length h = 3 \<and> list_all ascii_digit h"
      using gslen dig sub by (auto simp: list_all_iff)
    ultimately have "tail_ok t" unfolding t_def by (intro tail_ok_groups)
    moreover have "list_all ascii_digit g" using dig sub by (auto simp: list_all_iff)
    ultimately have "head_ok (length g) (g @ t)" by (simp add: head_ok_def)
    moreover have "length g = 1 \<or> length g = 2 \<or> length g = 3" using glen by arith
    ultimately show "matches_canonical (render s)"
      unfolding r matches_canonical_def by metis
  qed
qed


theorem format_rut_lenient_idempotent_witness:
  "format_rut_lenient ''9876543-2'' = Some ''9.876.543-2'' \<and>
   format_rut_lenient ''9.876.543-2'' = Some ''9.876.543-2''"
proof -
  have f: "format_rut_lenient ''9876543-2'' = Some ''9.876.543-2''" by code_simp
  from format_rut_lenient_idempotent [OF f] f show ?thesis by simp
qed

text \<open>
  C5, as amended: normalization succeeds exactly when at least two characters are kept,
  and the canonical string then matches \<open>\d{1,3}(\.\d{3})*-[0-9K]\<close> if and only if
  every kept character but the last is a decimal digit 0-9 and the last is a decimal
  digit 0-9 or \<open>k\<close>.
\<close>

theorem format_rut_lenient_pattern:
  "(format_rut_lenient raw \<noteq> None \<longleftrightarrow> 2 \<le> length (kept raw)) \<and>
   (\<forall>out. format_rut_lenient raw = Some out \<longrightarrow>
      (matches_canonical out \<longleftrightarrow>
         list_all ascii_digit (butlast (kept raw)) \<and>
         (ascii_digit (last (kept raw)) \<or> last (kept raw) = CHR ''k'')))"
proof (intro conjI allI impI)
  show "format_rut_lenient raw \<noteq> None \<longleftrightarrow> 2 \<le> length (kept raw)"
    by (simp add: format_rut_lenient_render)
next
  fix out assume "format_rut_lenient raw = Some out"
  then have len: "2 \<le> length (kept raw)" and out: "out = render (kept raw)"
    by (auto simp: format_rut_lenient_render split: if_splits)
  have "\<forall>c \<in> set (kept raw). keep c" using kept_keep by blast
  from render_matches [OF this len] out
  show "matches_canonical out \<longleftrightarrow>
         list_all ascii_digit (butlast (kept raw)) \<and>
         (ascii_digit (last (kept raw)) \<or> last (kept raw) = CHR ''k'')"
    by simp
qed

theorem format_rut_lenient_pattern_witness:
  "format_rut_lenient ''12345678k'' = Some ''12.345.678-K'' \<and> matches_canonical ''12.345.678-K''"
proof -
  have k: "kept ''12345678k'' = ''12345678k''" by code_simp
  have f: "format_rut_lenient ''12345678k'' = Some ''12.345.678-K''" by code_simp
  from format_rut_lenient_pattern [of "''12345678k''"] f k show ?thesis
    by (simp add: ascii_digit_def)
qed

text \<open>
  The pattern does not hold of every canonical string: \<open>k\<close> is kept wherever it
  stands, so the input \<open>kk\<close> is normalized to \<open>k-K\<close>.
\<close>

theorem format_rut_lenient_pattern_counterexample:
  "length (kept ''kk'') = 2 \<and> format_rut_lenient ''kk'' = Some ''k-K'' \<and>
   \<not> matches_canonical ''k-K''"
  by code_simp

section \<open>The record mapper and the documented row\<close>

lemma str_nat_small:
  "str_nat (Suc 0) = ''1''" "str_nat (Suc (Suc 0)) = ''2''" "str_nat (Suc (Suc (Suc 0))) = ''3''"
  "str_nat (Suc (Suc (Suc (Suc 0)))) = ''4''"
  by code_simp+

lemma short_list_cases:
  assumes "length (vs :: 'a list) < 5"
  obtains "vs = []" | a where "vs = [a]" | a b where "vs = [a, b]"
    | a b c where "vs = [a, b, c]" | a b c d where "vs = [a, b, c, d]"
proof -
  consider "length vs = 0" | "length vs = 1" | "length vs = 2" | "length vs = 3" | "length vs = 4"
    using assms by linarith
  then show thesis
  proof cases
    case 1 then show ?thesis using that(1) by simp
  next
    case 2 then show ?thesis using that(2) by (auto simp: length_Suc_conv)
  next
    case 3 then show ?thesis using that(3) by (auto simp: length_Suc_conv numeral_2_eq_2)
  next
    case 4 then show ?thesis using that(4) by (auto simp: length_Suc_conv numeral_3_eq_3)
  next
    case 5
    then have "length vs = Suc (Suc (Suc (Suc 0)))" by simp
    then show ?thesis using that(5) by (auto simp: length_Suc_conv)
  qed
qed

lemma map_values_short:
  "map_values [] = []"
  "map_values [a] = [(''campo1'', a)]"
  "map_values [a, b] = [(''campo1'', a), (''campo2'', b)]"
  "map_values [a, b, c] = [(''campo1'', a), (''campo2'', b), (''campo3'', c)]"
  "map_values [a, b, c, d] = [(''campo1'', a), (''campo2'', b), (''campo3'', c), (''campo4'', d)]"
  by (simp_all add: map_values_def enumerate_simps str_nat_small)

text \<open>
  C8: for every cell list, with five or more entries \<open>map_values\<close> returns the record
  with the keys nombre, rut, genero, direccion, comuna, in this order, bound to the
  first five entries, and drops the later ones; with fewer than five entries it returns
  one key per entry, campo1 up to campoN in order, bound to the entries in order; the
  empty list gives the empty record.
\<close>

theorem map_values_spec:
  "(5 \<le> length vs \<longrightarrow>
      map_values vs = [(''nombre'', vs ! 0), (''rut'', vs ! 1), (''genero'', vs ! 2),
                       (''direccion'', vs ! 3), (''comuna'', vs ! 4)]) \<and>
   (length vs < 5 \<longrightarrow>
      map fst (map_values vs) = take (length vs) [''campo1'', ''campo2'', ''campo3'', ''campo4''] \<and>
      map snd (map_values vs) = vs) \<and>
   map_values [] = []"
proof (intro conjI impI)
  assume "5 \<le> length vs"
  then show "map_values vs = [(''nombre'', vs ! 0), (''rut'', vs ! 1), (''genero'', vs ! 2),
                       (''direccion'', vs ! 3), (''comuna'', vs ! 4)]"
    by (simp add: map_values_def)
next
  assume "length vs < 5"
  then show "map fst (map_values vs) = take (length vs) [''campo1'', ''campo2'', ''campo3'', ''campo4'']"
    by (cases vs rule: short_list_cases) (simp_all add: map_values_short)
next
  assume "length vs < 5"
  then show "map snd (map_values vs) = vs"
    by (cases vs rule: short_list_cases) (simp_all add: map_values_short)
next
  show "map_values [] = []" by (simp add: map_values_short)
qed

theorem map_values_spec_witness:
  "map_values [''A'', ''B'', ''C'', ''D'', ''E'', ''F''] =
     [(''nombre'', ''A''), (''rut'', ''B''), (''genero'', ''C''), (''direccion'', ''D''), (''comuna'', ''E'')] \<and>
   map fst (map_values [''A'', ''B'', ''C'']) = [''campo1'', ''campo2'', ''campo3''] \<and>
   map snd (map_values [''A'', ''B'', ''C'']) = [''A'', ''B'', ''C'']"
  using map_values_spec [of "[''A'', ''B'', ''C'', ''D'', ''E'', ''F'']"]
        map_values_spec [of "[''A'', ''B'', ''C'']"]
  by simp

text \<open>
  C9: on the row of five cells A to E, \<open>extract_first_tr_values\<close> returns the five
  cell texts in order, and \<open>map_values\<close> binds them to nombre, rut, genero,
  direccion, comuna.
\<close>

theorem extract_and_map_example:
  "extract_first_tr_values ''<tr><td>A</td><td>B</td><td>C</td><td>D</td><td>E</td></tr>'' =
     [''A'', ''B'', ''C'', ''D'', ''E''] \<and>
   map_values [''A'', ''B'', ''C'', ''D'', ''E''] =
     [(''nombre'', ''A''), (''rut'', ''B''), (''genero'', ''C''), (''direccion'', ''D''),
      (''comuna'', ''E'')]"
  by code_simp


section \<open>The escalation of \<open>get_rut\<close>\<close>

lemma format_rut_lenient_nonempty: "format_rut_lenient rut = Some formatted \<Longrightarrow> formatted \<noteq> []"
  by (auto simp: format_rut_lenient_def Let_def split: if_splits)

lemma fst_get_rut_fallback:
  "fst (get_rut_fallback env url formatted inspect) = [Requests url, Playwright url]"
  by (simp add: get_rut_fallback_def Let_def split: browser_outcome.split)

lemma get_rut_formatted:
  assumes "format_rut_lenient rut = Some formatted"
  shows "get_rut env rut inspect =
     (case fetch_via_requests env (RUT_URL formatted) of
        Response status_code html \<Rightarrow>
          if status_code \<noteq> 403 \<and> ensure_has_tds html then
            (if extract_first_tr_values html = [] then
               ([Requests (RUT_URL formatted)],
                HTTPException 400 (''No se encontraron columnas <td> v'' @ [CHR 0xE1] @ ''lidas''))
             else
               ([Requests (RUT_URL formatted)],
                Returned [(''source'', PyStr (RUT_URL formatted)),
                          (''rut_consultado'', PyStr formatted),
                          (''columnas'', PyInt (int (length (extract_first_tr_values html)))),
                          (''data'', PyDict (map_values (extract_first_tr_values html))),
                          (''raw'', PyList (extract_first_tr_values html))]))
          else get_rut_fallback env (RUT_URL formatted) formatted inspect
      | RequestException e \<Rightarrow> get_rut_fallback env (RUT_URL formatted) formatted inspect
      | OtherException e \<Rightarrow> ([Requests (RUT_URL formatted)], DirectError e))"
  using assms format_rut_lenient_nonempty [OF assms]
  by (simp add: get_rut_def Let_def split: direct_outcome.split)

lemma get_rut_escalates:
  assumes "format_rut_lenient rut = Some formatted"
      and "escalates (fetch_via_requests env (RUT_URL formatted))"
  shows "get_rut env rut inspect = get_rut_fallback env (RUT_URL formatted) formatted inspect"
proof (cases "fetch_via_requests env (RUT_URL formatted)")
  case (Response status_code html)
  with assms(2) have "status_code = 403 \<or> \<not> ensure_has_tds html"
    by (simp add: escalates_def)
  with Response show ?thesis by (auto simp: get_rut_formatted [OF assms(1)])
next
  case (RequestException e)
  then show ?thesis by (simp add: get_rut_formatted [OF assms(1)])
next
  case (OtherException e)
  with assms(2) show ?thesis by (simp add: escalates_def)
qed

text \<open>
  C1: when the direct fetch returns a response, \<open>get_rut\<close> calls
  \<open>fetch_via_playwright\<close> if and only if the status code is 403 or
  \<open>ensure_has_tds\<close> fails on the body. In particular, a response other than 403
  whose body has the table markup but no non-empty cell ends the request with the
  400 error, and the browser tier is not called.
\<close>

theorem get_rut_escalation:
  assumes "format_rut_lenient rut = Some formatted"
      and "fetch_via_requests env (RUT_URL formatted) = Response status body"
  shows "((\<exists>url. Playwright url \<in> set (fst (get_rut env rut inspect))) \<longleftrightarrow>
            status = 403 \<or> \<not> ensure_has_tds body) \<and>
         (status = 403 \<or> \<not> ensure_has_tds body \<longrightarrow>
            fst (get_rut env rut inspect) =
              [Requests (RUT_URL formatted), Playwright (RUT_URL formatted)]) \<and>
         (status \<noteq> 403 \<and> ensure_has_tds body \<and> extract_first_tr_values body = [] \<longrightarrow>
            get_rut env rut inspect =
              ([Requests (RUT_URL formatted)],
               HTTPException 400 (''No se encontraron columnas <td> v'' @ [CHR 0xE1] @ ''lidas'')))"
proof (cases "status = 403 \<or> \<not> ensure_has_tds body")
  case True
  then have "escalates (fetch_via_requests env (RUT_URL formatted))"
    by (simp add: escalates_def assms(2))
  from get_rut_escalates [OF assms(1) this]
  have "fst (get_rut env rut inspect) = [Requests (RUT_URL formatted), Playwright (RUT_URL formatted)]"
    by (simp add: fst_get_rut_fallback)
  with True show ?thesis by auto
next
  case False
  then have "fst (get_rut env rut inspect) = [Requests (RUT_URL formatted)]"
    by (simp add: get_rut_formatted [OF assms(1)] assms(2))
  moreover have "extract_first_tr_values body = [] \<longrightarrow>
      get_rut env rut inspect =
        ([Requests (RUT_URL formatted)],
         HTTPException 400 (''No se encontraron columnas <td> v'' @ [CHR 0xE1] @ ''lidas''))"
    using False by (simp add: get_rut_formatted [OF assms(1)] assms(2))
  ultimately show ?thesis using False by auto
qed

theorem get_rut_escalation_witness:
  "\<not> (\<exists>url. Playwright url \<in> set (fst (get_rut
        \<lparr>fetch_via_requests = (\<lambda>u. Response 200 ''<tr><td></td></tr>''),
         fetch_via_playwright = (\<lambda>u. Html [])\<rparr> ''15421741K'' False))) \<and>
   get_rut \<lparr>fetch_via_requests = (\<lambda>u. Response 200 ''<tr><td></td></tr>''),
            fetch_via_playwright = (\<lambda>u. Html [])\<rparr> ''15421741K'' False =
     ([Requests (RUT_URL ''15.421.741-K'')],
      HTTPException 400 (''No se encontraron columnas <td> v'' @ [CHR 0xE1] @ ''lidas''))"
proof -
  have f: "format_rut_lenient ''15421741K'' = Some ''15.421.741-K''" by code_simp
  have d: "fetch_via_requests \<lparr>fetch_via_requests = (\<lambda>u. Response 200 ''<tr><td></td></tr>''),
         fetch_via_playwright = (\<lambda>u. Html [])\<rparr> (RUT_URL ''15.421.741-K'') =
        Response 200 ''<tr><td></td></tr>''" by simp
  have e: "ensure_has_tds ''<tr><td></td></tr>''" by code_simp
  have x: "extract_first_tr_values ''<tr><td></td></tr>'' = []" by code_simp
  from get_rut_escalation [OF f d, of False] e x show ?thesis by simp
qed

text \<open>
  C2: when the direct fetch raises a \<open>requests.RequestException\<close>, the exception does
  not reach the caller: \<open>get_rut\<close> calls \<open>fetch_via_playwright\<close> and goes on as
  it does after a 403 response.
\<close>

theorem get_rut_request_exception:
  assumes "format_rut_lenient rut = Some formatted"
      and "fetch_via_requests env (RUT_URL formatted) = RequestException e"
  shows "get_rut env rut inspect = get_rut_fallback env (RUT_URL formatted) formatted inspect \<and>
         fst (get_rut env rut inspect) =
           [Requests (RUT_URL formatted), Playwright (RUT_URL formatted)] \<and>
         (\<forall>m. snd (get_rut env rut inspect) \<noteq> DirectError m) \<and>
         (\<forall>body. get_rut (env\<lparr>fetch_via_requests := (\<lambda>u. Response 403 body)\<rparr>) rut inspect =
                  get_rut env rut inspect)"
proof -
  have "escalates (fetch_via_requests env (RUT_URL formatted))"
    by (simp add: escalates_def assms(2))
  from get_rut_escalates [OF assms(1) this]
  have g: "get_rut env rut inspect = get_rut_fallback env (RUT_URL formatted) formatted inspect" .
  have n: "snd (get_rut_fallback env (RUT_URL formatted) formatted inspect) \<noteq> DirectError m" for m
    by (simp add: get_rut_fallback_def Let_def split: browser_outcome.split)
  have "get_rut (env\<lparr>fetch_via_requests := (\<lambda>u. Response 403 body)\<rparr>) rut inspect =
        get_rut_fallback env (RUT_URL formatted) formatted inspect" for body
    by (simp add: get_rut_formatted [OF assms(1)] get_rut_fallback_def)
  with g n show ?thesis by (simp add: fst_get_rut_fallback)
qed

theorem get_rut_request_exception_witness:
  "get_rut \<lparr>fetch_via_requests = (\<lambda>u. RequestException ''timed out''),
            fetch_via_playwright = (\<lambda>u. Html ''<tr><td>x</td></tr>'')\<rparr> ''15421741K'' False =
     ([Requests (RUT_URL ''15.421.741-K''), Playwright (RUT_URL ''15.421.741-K'')],
      Returned [(''source'', PyStr (RUT_URL ''15.421.741-K'')),
                (''rut_consultado'', PyStr ''15.421.741-K''),
                (''columnas'', PyInt 1), (''data'', PyDict [(''campo1'', ''x'')]),
                (''raw'', PyList [''x''])])"
proof -
  have f: "format_rut_lenient ''15421741K'' = Some ''15.421.741-K''" by code_simp
  have d: "fetch_via_requests \<lparr>fetch_via_requests = (\<lambda>u. RequestException ''timed out''),
            fetch_via_playwright = (\<lambda>u. Html ''<tr><td>x</td></tr>'')\<rparr>
            (RUT_URL ''15.421.741-K'') = RequestException ''timed out''" by simp
  have e: "ensure_has_tds ''<tr><td>x</td></tr>''" by code_simp
  have x: "extract_first_tr_values ''<tr><td>x</td></tr>'' = [''x'']" by code_simp
  have m: "map_values [''x''] = [(''campo1'', ''x'')]" by code_simp
  from get_rut_request_exception [OF f d, of False] e x m show ?thesis
    by (simp add: get_rut_fallback_def)
qed


section \<open>Extraction and the table-markup test\<close>

lemma ci_prefix_append:
  assumes "ci_prefix p s = Some r"
  shows "ci_prefix p (s @ x) = Some (r @ x)"
proof -
  from assms have "length p \<le> length s" "map lower (take (length p) s) = p"
      "r = drop (length p) s"
    by (auto simp: ci_prefix_def split: if_splits)
  then show ?thesis by (simp add: ci_prefix_def)
qed

lemma open_tag_append:
  assumes "open_tag name s = Some r"
  shows "open_tag name (s @ x) = Some (r @ x)"
proof -
  from assms obtain q y where q: "ci_prefix (CHR ''<'' # name) s = Some q"
    and d: "dropWhile (\<lambda>c. c \<noteq> CHR ''>'') q = y # r"
    by (auto simp: open_tag_def split: option.splits list.splits)
  from d have "y \<in> set q" "\<not> y \<noteq> CHR ''>''"
    using set_dropWhileD [of y "\<lambda>c. c \<noteq> CHR ''>''" q] hd_dropWhile [of "\<lambda>c. c \<noteq> CHR ''>''" q]
    by auto
  then have "dropWhile (\<lambda>c. c \<noteq> CHR ''>'') (q @ x) = (y # r) @ x"
    using d dropWhile_append1 [of y q "\<lambda>c. c \<noteq> CHR ''>''" x] by simp
  with ci_prefix_append [OF q, of x] show ?thesis by (simp add: open_tag_def)
qed

lemma lazy_until_prefix:
  "lazy_until cl s = Some (g, r) \<Longrightarrow> \<exists>m. s = g @ m"
proof (induction s arbitrary: g)
  case Nil
  then show ?case by (simp add: ci_prefix_def split: option.splits if_splits)
next
  case (Cons a s)
  show ?case
  proof (cases "ci_prefix cl (a # s)")
    case None
    with Cons.prems obtain g' where g': "lazy_until cl s = Some (g', r)" "g = a # g'"
      by (auto split: option.splits)
    from Cons.IH [OF g'(1)] g'(2) show ?thesis by auto
  next
    case (Some q)
    with Cons.prems have "g = []" by simp
    then show ?thesis by simp
  qed
qed

lemma TD_RX_finditer_open_tag:
  "TD_RX_finditer c \<noteq> [] \<Longrightarrow> \<exists>a t q. c = a @ t \<and> open_tag ''td'' t = Some q"
proof (induction c rule: TD_RX_finditer.induct)
  case 1
  then show ?case by simp
next
  case (2 c t)
  show ?case
  proof (cases "TD_RX_match (c # t)")
    case None
    with 2 obtain a t' q where "t = a @ t'" "open_tag ''td'' t' = Some q" by auto
    then have "c # t = (c # a) @ t'" by simp
    with \<open>open_tag ''td'' t' = Some q\<close> show ?thesis by blast
  next
    case (Some x)
    then obtain q where "open_tag ''td'' (c # t) = Some q"
      by (auto simp: TD_RX_match_def split: option.splits)
    then have "c # t = [] @ (c # t) \<and> open_tag ''td'' (c # t) = Some q" by simp
    then show ?thesis by blast
  qed
qed

lemma has_open_tag_append:
  assumes "open_tag name t = Some q"
  shows "has_open_tag name (a @ t)"
proof (induction a)
  case Nil
  from assms show ?case by (cases t) simp_all
next
  case (Cons x a)
  then show ?case by (simp split: option.splits)
qed

lemma TDS_RX_search_append: "TDS_RX_match s \<Longrightarrow> TDS_RX_search (a @ s)"
proof (induction a)
  case Nil
  then show ?case by (cases s) simp_all
next
  case (Cons x a)
  then show ?case by simp
qed

lemma TR_RX_search_match:
  "TR_RX_search h = Some c \<Longrightarrow> \<exists>a s. h = a @ s \<and> TR_RX_match s = Some c"
proof (induction h)
  case Nil
  then show ?case by simp
next
  case (Cons x h)
  show ?case
  proof (cases "TR_RX_match (x # h)")
    case None
    with Cons obtain a s where "h = a @ s" "TR_RX_match s = Some c" by auto
    then have "x # h = (x # a) @ s" by simp
    with \<open>TR_RX_match s = Some c\<close> show ?thesis by blast
  next
    case (Some g)
    with Cons.prems have "x # h = [] @ (x # h) \<and> TR_RX_match (x # h) = Some c" by simp
    then show ?thesis by blast
  qed
qed

lemma extract_first_tr_values_ensure_has_tds:
  assumes "extract_first_tr_values html \<noteq> []"
  shows "ensure_has_tds html"
proof -
  from assms obtain c where c: "TR_RX_search html = Some c"
    and nz: "filter (\<lambda>clean. clean \<noteq> [])
               (map (\<lambda>txt. strip (sub_spaces (replace_nbsp (strip_tags txt))))
                  (TD_RX_finditer c)) \<noteq> []"
    by (auto simp: extract_first_tr_values_def split: option.splits)
  have f: "TD_RX_finditer c \<noteq> []"
  proof
    assume "TD_RX_finditer c = []"
    with nz show False by simp
  qed
  from TR_RX_search_match [OF c] obtain a s where s: "html = a @ s" "TR_RX_match s = Some c"
    by blast
  from s(2) obtain r rest where r: "open_tag ''tr'' s = Some r"
      "lazy_until ''</tr>'' r = Some (c, rest)"
    by (auto simp: TR_RX_match_def split: option.splits)
  from lazy_until_prefix [OF r(2)] obtain m where m: "r = c @ m" by blast
  from TD_RX_finditer_open_tag [OF f] obtain a' t q where t: "c = a' @ t"
      "open_tag ''td'' t = Some q" by blast
  from has_open_tag_append [OF open_tag_append [OF t(2), of m], of a']
  have "has_open_tag ''td'' r" by (simp add: m t(1))
  with r(1) have "TDS_RX_match s" by (simp add: TDS_RX_match_def)
  from TDS_RX_search_append [OF this, of a] show ?thesis by (simp add: ensure_has_tds_def s(1))
qed


section \<open>The diagnostic mode of \<open>get_rut\<close>\<close>

text \<open>
  With \<open>inspect\<close> set, a final HTML that has the table markup but no non-empty cell
  still ends in the 400 error, on either tier: the diagnostic payload is not returned
  whenever extraction fails.
\<close>

theorem get_rut_inspect_counterexample:
  "extract_first_tr_values ''<tr><td></td></tr>'' = [] \<and>
   get_rut \<lparr>fetch_via_requests = (\<lambda>u. Response 200 ''<tr><td></td></tr>''),
            fetch_via_playwright = (\<lambda>u. Html [])\<rparr> ''15421741K'' True =
     ([Requests ''https://r.rutificador.co/pr/15.421.741-K''],
      HTTPException 400 (''No se encontraron columnas <td> v'' @ [CHR 0xE1] @ ''lidas'')) \<and>
   get_rut \<lparr>fetch_via_requests = (\<lambda>u. Response 403 []),
            fetch_via_playwright = (\<lambda>u. Html ''<tr><td></td></tr>'')\<rparr> ''15421741K'' True =
     ([Requests ''https://r.rutificador.co/pr/15.421.741-K'',
       Playwright ''https://r.rutificador.co/pr/15.421.741-K''],
      HTTPException 400 ''La fila no contiene columnas <td>'')"
  by code_simp

text \<open>
  C3, as amended: with \<open>inspect\<close> set, when the browser tier is reached and its HTML
  has no \<open><tr>...<td>\<close> sequence (extraction then yields nothing), \<open>get_rut\<close>
  returns the diagnostic payload with the keys source, rut_consultado, message and
  snippet, the snippet being the first 1200 characters of that HTML, instead of raising.
  When the final HTML of either tier has such a sequence and extraction yields no
  non-empty cell, \<open>get_rut\<close> raises the 400 error whatever \<open>inspect\<close> is.
\<close>

theorem get_rut_inspect_diagnostic:
  assumes "format_rut_lenient rut = Some formatted"
  shows "(escalates (fetch_via_requests env (RUT_URL formatted)) \<and>
          fetch_via_playwright env (RUT_URL formatted) = Html html \<and>
          \<not> ensure_has_tds html \<longrightarrow>
            get_rut env rut True =
              ([Requests (RUT_URL formatted), Playwright (RUT_URL formatted)],
               Returned [(''source'', PyStr (RUT_URL formatted)),
                         (''rut_consultado'', PyStr formatted),
                         (''message'', PyStr ''No se detectaron <td> incluso con Playwright.''),
                         (''snippet'', PyStr (take 1200 html))]) \<and>
            length (take 1200 html) \<le> 1200 \<and> extract_first_tr_values html = []) \<and>
         (escalates (fetch_via_requests env (RUT_URL formatted)) \<and>
          fetch_via_playwright env (RUT_URL formatted) = Html html \<and>
          ensure_has_tds html \<and> extract_first_tr_values html = [] \<longrightarrow>
            snd (get_rut env rut inspect) =
              HTTPException 400 ''La fila no contiene columnas <td>'') \<and>
         (fetch_via_requests env (RUT_URL formatted) = Response status html \<and>
          status \<noteq> 403 \<and> ensure_has_tds html \<and> extract_first_tr_values html = [] \<longrightarrow>
            snd (get_rut env rut inspect) =
              HTTPException 400 (''No se encontraron columnas <td> v'' @ [CHR 0xE1] @ ''lidas''))"
proof (intro conjI impI)
  assume a: "escalates (fetch_via_requests env (RUT_URL formatted)) \<and>
          fetch_via_playwright env (RUT_URL formatted) = Html html \<and> \<not> ensure_has_tds html"
  then show "get_rut env rut True =
              ([Requests (RUT_URL formatted), Playwright (RUT_URL formatted)],
               Returned [(''source'', PyStr (RUT_URL formatted)),
                         (''rut_consultado'', PyStr formatted),
                         (''message'', PyStr ''No se detectaron <td> incluso con Playwright.''),
                         (''snippet'', PyStr (take 1200 html))])"
    by (simp add: get_rut_escalates [OF assms] get_rut_fallback_def)
  show "length (take 1200 html) \<le> 1200" by simp
  from a extract_first_tr_values_ensure_has_tds [of html]
  show "extract_first_tr_values html = []" by blast
next
  assume "escalates (fetch_via_requests env (RUT_URL formatted)) \<and>
          fetch_via_playwright env (RUT_URL formatted) = Html html \<and>
          ensure_has_tds html \<and> extract_first_tr_values html = []"
  then show "snd (get_rut env rut inspect) = HTTPException 400 ''La fila no contiene columnas <td>''"
    by (simp add: get_rut_escalates [OF assms] get_rut_fallback_def)
next
  assume "fetch_via_requests env (RUT_URL formatted) = Response status html \<and>
          status \<noteq> 403 \<and> ensure_has_tds html \<and> extract_first_tr_values html = []"
  then show "snd (get_rut env rut inspect) =
              HTTPException 400 (''No se encontraron columnas <td> v'' @ [CHR 0xE1] @ ''lidas'')"
    by (simp add: get_rut_formatted [OF assms])
qed

theorem get_rut_inspect_diagnostic_witness:
  "get_rut \<lparr>fetch_via_requests = (\<lambda>u. Response 403 ''blocked''),
            fetch_via_playwright = (\<lambda>u. Html ''<html>challenge</html>'')\<rparr> ''15421741K'' True =
     ([Requests (RUT_URL ''15.421.741-K''), Playwright (RUT_URL ''15.421.741-K'')],
      Returned [(''source'', PyStr (RUT_URL ''15.421.741-K'')),
                (''rut_consultado'', PyStr ''15.421.741-K''),
                (''message'', PyStr ''No se detectaron <td> incluso con Playwright.''),
                (''snippet'', PyStr ''<html>challenge</html>'')])"
proof -
  have f: "format_rut_lenient ''15421741K'' = Some ''15.421.741-K''" by code_simp
  have e: "\<not> ensure_has_tds ''<html>challenge</html>''" by code_simp
  from get_rut_inspect_diagnostic [OF f,
      of "\<lparr>fetch_via_requests = (\<lambda>u. Response 403 ''blocked''),
            fetch_via_playwright = (\<lambda>u. Html ''<html>challenge</html>'')\<rparr>"
         "''<html>challenge</html>''"] e
  show ?thesis by (simp add: escalates_def)
qed

section \<open>The raw endpoint\<close>

text \<open>
  The two endpoints do not escalate on the same condition: a 200 response without
  table markup sends \<open>get_rut\<close> to the browser tier, while \<open>get_rut_raw\<close> returns
  its body.
\<close>

theorem get_rut_raw_escalation_counterexample:
  "fst (get_rut \<lparr>fetch_via_requests = (\<lambda>u. Response 200 ''hello''),
                 fetch_via_playwright = (\<lambda>u. Html ''<tr><td>x</td></tr>'')\<rparr>
          ''15421741K'' False) =
     [Requests ''https://r.rutificador.co/pr/15.421.741-K'',
      Playwright ''https://r.rutificador.co/pr/15.421.741-K''] \<and>
   get_rut_raw \<lparr>fetch_via_requests = (\<lambda>u. Response 200 ''hello''),
                fetch_via_playwright = (\<lambda>u. Html ''<tr><td>x</td></tr>'')\<rparr>
          ''15421741K'' =
     ([Requests ''https://r.rutificador.co/pr/15.421.741-K''],
      Returned [(''status'', PyInt 200),
                (''source'', PyStr ''https://r.rutificador.co/pr/15.421.741-K''),
                (''html'', PyStr ''hello'')])"
proof -
  have f: "format_rut_lenient ''15421741K'' = Some ''15.421.741-K''" by code_simp
  have e: "\<not> ensure_has_tds ''hello''" by code_simp
  show ?thesis
    by (simp add: get_rut_def get_rut_raw_def fst_get_rut_fallback f e Let_def RUT_URL_def)
qed

text \<open>
  C4, as amended: \<open>get_rut_raw\<close> normalizes as \<open>get_rut\<close> does (the same 400 error
  when normalization fails, the same URL otherwise) and fetches in two tiers, but
  accepts the direct response when its status code is not 403 and its body is not
  empty, whatever the body holds; it then returns the first 20000 characters of the
  body with the status code of the response. When the status code is 403, the body is
  empty or the direct fetch raised a \<open>RequestException\<close>, it calls the browser tier
  and returns the first 20000 characters of the rendered HTML with the constant status
  200.
\<close>

theorem get_rut_raw_spec:
  "(format_rut_lenient rut = None \<longrightarrow>
      get_rut_raw env rut = ([], HTTPException 400 (''RUT inv'' @ [CHR 0xE1] @ ''lido'')) \<and>
      get_rut env rut inspect = ([], HTTPException 400 (''RUT inv'' @ [CHR 0xE1] @ ''lido''))) \<and>
   (format_rut_lenient rut = Some formatted \<and>
    fetch_via_requests env (RUT_URL formatted) = Response status body \<and>
    status \<noteq> 403 \<and> body \<noteq> [] \<longrightarrow>
      get_rut_raw env rut =
        ([Requests (RUT_URL formatted)],
         Returned [(''status'', PyInt status), (''source'', PyStr (RUT_URL formatted)),
                   (''html'', PyStr (take 20000 body))]) \<and>
      length (take 20000 body) \<le> 20000) \<and>
   (format_rut_lenient rut = Some formatted \<and>
    escalates_raw (fetch_via_requests env (RUT_URL formatted)) \<and>
    fetch_via_playwright env (RUT_URL formatted) = Html html \<longrightarrow>
      get_rut_raw env rut =
        ([Requests (RUT_URL formatted), Playwright (RUT_URL formatted)],
         Returned [(''status'', PyInt 200), (''source'', PyStr (RUT_URL formatted)),
                   (''html'', PyStr (take 20000 html))]) \<and>
      length (take 20000 html) \<le> 20000)"
proof (intro conjI impI)
  assume "format_rut_lenient rut = None"
  then show "get_rut_raw env rut = ([], HTTPException 400 (''RUT inv'' @ [CHR 0xE1] @ ''lido''))"
    and "get_rut env rut inspect = ([], HTTPException 400 (''RUT inv'' @ [CHR 0xE1] @ ''lido''))"
    by (simp_all add: get_rut_raw_def get_rut_def)
next
  assume a: "format_rut_lenient rut = Some formatted \<and>
    fetch_via_requests env (RUT_URL formatted) = Response status body \<and>
    status \<noteq> 403 \<and> body \<noteq> []"
  then have "formatted \<noteq> []" using format_rut_lenient_nonempty by blast
  with a show "get_rut_raw env rut =
        ([Requests (RUT_URL formatted)],
         Returned [(''status'', PyInt status), (''source'', PyStr (RUT_URL formatted)),
                   (''html'', PyStr (take 20000 body))])"
    by (simp add: get_rut_raw_def Let_def)
  show "length (take 20000 body) \<le> 20000" by simp
next
  assume a: "format_rut_lenient rut = Some formatted \<and>
    escalates_raw (fetch_via_requests env (RUT_URL formatted)) \<and>
    fetch_via_playwright env (RUT_URL formatted) = Html html"
  then have ne: "formatted \<noteq> []" using format_rut_lenient_nonempty by blast
  show "get_rut_raw env rut =
        ([Requests (RUT_URL formatted), Playwright (RUT_URL formatted)],
         Returned [(''status'', PyInt 200), (''source'', PyStr (RUT_URL formatted)),
                   (''html'', PyStr (take 20000 html))])"
  proof (cases "fetch_via_requests env (RUT_URL formatted)")
    case (Response status_code b)
    with a have "status_code = 403 \<or> b = []" by (simp add: escalates_raw_def)
    with a ne Response show ?thesis by (auto simp: get_rut_raw_def Let_def)
  next
    case (RequestException e)
    with a ne show ?thesis by (simp add: get_rut_raw_def Let_def)
  next
    case (OtherException e)
    with a show ?thesis by (simp add: escalates_raw_def)
  qed
  show "length (take 20000 html) \<le> 20000" by simp
qed

theorem get_rut_raw_spec_witness:
  "get_rut_raw \<lparr>fetch_via_requests = (\<lambda>u. Response 404 ''not found''),
                fetch_via_playwright = (\<lambda>u. Html [])\<rparr> ''15421741K'' =
     ([Requests (RUT_URL ''15.421.741-K'')],
      Returned [(''status'', PyInt 404), (''source'', PyStr (RUT_URL ''15.421.741-K'')),
                (''html'', PyStr ''not found'')]) \<and>
   get_rut_raw \<lparr>fetch_via_requests = (\<lambda>u. Response 403 ''blocked''),
                fetch_via_playwright = (\<lambda>u. Html ''rendered'')\<rparr> ''15421741K'' =
     ([Requests (RUT_URL ''15.421.741-K''), Playwright (RUT_URL ''15.421.741-K'')],
      Returned [(''status'', PyInt 200), (''source'', PyStr (RUT_URL ''15.421.741-K'')),
                (''html'', PyStr ''rendered'')]) \<and>
   get_rut_raw \<lparr>fetch_via_requests = (\<lambda>u. Response 200 []),
                fetch_via_playwright = (\<lambda>u. Html [])\<rparr> ''k'' =
     ([], HTTPException 400 (''RUT inv'' @ [CHR 0xE1] @ ''lido''))"
proof -
  have f: "format_rut_lenient ''15421741K'' = Some ''15.421.741-K''" by code_simp
  have n: "format_rut_lenient ''k'' = None" by code_simp
  from get_rut_raw_spec [of "''15421741K''"
      "\<lparr>fetch_via_requests = (\<lambda>u. Response 404 ''not found''),
        fetch_via_playwright = (\<lambda>u. Html [])\<rparr>" False "''15.421.741-K''" 404 "''not found''"]
    get_rut_raw_spec [of "''15421741K''"
      "\<lparr>fetch_via_requests = (\<lambda>u. Response 403 ''blocked''),
        fetch_via_playwright = (\<lambda>u. Html ''rendered'')\<rparr>" False "''15.421.741-K''" 0 "[]"
      "''rendered''"]
    get_rut_raw_spec [of "''k''"
      "\<lparr>fetch_via_requests = (\<lambda>u. Response 200 []),
        fetch_via_playwright = (\<lambda>u. Html [])\<rparr>"] f n
  show ?thesis by (simp add: escalates_raw_def)
qed


section \<open>The success payload\<close>

lemma take5_nth:
  assumes "5 \<le> length (vs :: 'a list)"
  shows "take 5 vs = [vs ! 0, vs ! 1, vs ! 2, vs ! 3, vs ! 4]"
proof (rule nth_equalityI)
  show "length (take 5 vs) = length [vs ! 0, vs ! 1, vs ! 2, vs ! 3, vs ! 4]"
    using assms by simp
next
  fix i assume "i < length (take 5 vs)"
  then have "i = 0 \<or> i = 1 \<or> i = 2 \<or> i = 3 \<or> i = 4" by auto
  then show "take 5 vs ! i = [vs ! 0, vs ! 1, vs ! 2, vs ! 3, vs ! 4] ! i"
    by (elim disjE) simp_all
qed

lemma map_values_long:
  assumes "5 \<le> length vs"
  shows "map fst (map_values vs) = [''nombre'', ''rut'', ''genero'', ''direccion'', ''comuna'']"
    and "map snd (map_values vs) = take 5 vs"
  using assms by (simp_all add: map_values_def take5_nth)

lemma get_rut_fallback_Returned:
  assumes "get_rut_fallback env url formatted inspect = (calls, Returned p)"
      and "map_of p ''columnas'' \<noteq> None"
  shows "\<exists>html. fetch_via_playwright env url = Html html \<and>
           p = [(''source'', PyStr url), (''rut_consultado'', PyStr formatted),
                (''columnas'', PyInt (int (length (extract_first_tr_values html)))),
                (''data'', PyDict (map_values (extract_first_tr_values html))),
                (''raw'', PyList (extract_first_tr_values html))]"
proof (cases "fetch_via_playwright env url")
  case (Html html)
  show ?thesis
  proof (cases "ensure_has_tds html")
    case True
    with Html assms(1) show ?thesis
      by (auto simp: get_rut_fallback_def Let_def split: if_splits)
  next
    case False
    with Html assms show ?thesis
      by (auto simp: get_rut_fallback_def split: if_splits)
  qed
next
  case (Failed e)
  with assms(1) show ?thesis by (simp add: get_rut_fallback_def)
qed

text \<open>
  C10: in every payload that \<open>get_rut\<close> returns with a columnas field (the success
  payload; the diagnostic payload has none), columnas is the length of the whole list
  extracted from the final HTML and raw is that list, while data is \<open>map_values\<close> of
  it. So with more than five cells columnas exceeds 5 and the cells after the fifth are
  in raw, although data holds the five named fields only.
\<close>

theorem get_rut_columnas_raw:
  assumes "get_rut env rut inspect = (calls, Returned p)"
      and "map_of p ''columnas'' \<noteq> None"
  shows "\<exists>formatted html vals.
           format_rut_lenient rut = Some formatted \<and>
           ((\<exists>status. fetch_via_requests env (RUT_URL formatted) = Response status html \<and>
                      status \<noteq> 403 \<and> ensure_has_tds html) \<or>
            (escalates (fetch_via_requests env (RUT_URL formatted)) \<and>
             fetch_via_playwright env (RUT_URL formatted) = Html html)) \<and>
           vals = extract_first_tr_values html \<and>
           map_of p ''columnas'' = Some (PyInt (int (length vals))) \<and>
           map_of p ''raw'' = Some (PyList vals) \<and>
           map_of p ''data'' = Some (PyDict (map_values vals)) \<and>
           (5 < length vals \<longrightarrow>
              5 < int (length vals) \<and>
              map fst (map_values vals) = [''nombre'', ''rut'', ''genero'', ''direccion'', ''comuna''] \<and>
              vals = map snd (map_values vals) @ drop 5 vals \<and> drop 5 vals \<noteq> [])"
proof -
  from assms(1) obtain formatted where f: "format_rut_lenient rut = Some formatted"
    by (cases "format_rut_lenient rut") (simp_all add: get_rut_def)
  let ?url = "RUT_URL formatted"
  have "\<exists>html. ((\<exists>status. fetch_via_requests env ?url = Response status html \<and>
                      status \<noteq> 403 \<and> ensure_has_tds html) \<or>
            (escalates (fetch_via_requests env ?url) \<and> fetch_via_playwright env ?url = Html html)) \<and>
           p = [(''source'', PyStr ?url), (''rut_consultado'', PyStr formatted),
                (''columnas'', PyInt (int (length (extract_first_tr_values html)))),
                (''data'', PyDict (map_values (extract_first_tr_values html))),
                (''raw'', PyList (extract_first_tr_values html))]"
  proof (cases "escalates (fetch_via_requests env ?url)")
    case True
    from assms(1) have "get_rut_fallback env ?url formatted inspect = (calls, Returned p)"
      by (simp add: get_rut_escalates [OF f True])
    from get_rut_fallback_Returned [OF this assms(2)] True show ?thesis by blast
  next
    case False
    show ?thesis
    proof (cases "fetch_via_requests env ?url")
      case (Response status html)
      with False have ok: "status \<noteq> 403 \<and> ensure_has_tds html" by (simp add: escalates_def)
      with assms(1) Response have
        "p = [(''source'', PyStr ?url), (''rut_consultado'', PyStr formatted),
                (''columnas'', PyInt (int (length (extract_first_tr_values html)))),
                (''data'', PyDict (map_values (extract_first_tr_values html))),
                (''raw'', PyList (extract_first_tr_values html))]"
        by (simp add: get_rut_formatted [OF f] split: if_splits)
      with ok Response show ?thesis by blast
    next
      case (RequestException e)
      with False show ?thesis by (simp add: escalates_def)
    next
      case (OtherException e)
      with assms(1) show ?thesis by (simp add: get_rut_formatted [OF f])
    qed
  qed
  then obtain html where h:
    "(\<exists>status. fetch_via_requests env ?url = Response status html \<and>
                      status \<noteq> 403 \<and> ensure_has_tds html) \<or>
            (escalates (fetch_via_requests env ?url) \<and> fetch_via_playwright env ?url = Html html)"
    and p: "p = [(''source'', PyStr ?url), (''rut_consultado'', PyStr formatted),
                (''columnas'', PyInt (int (length (extract_first_tr_values html)))),
                (''data'', PyDict (map_values (extract_first_tr_values html))),
                (''raw'', PyList (extract_first_tr_values html))]"
    by blast
  let ?vals = "extract_first_tr_values html"
  have m: "map_of p ''columnas'' = Some (PyInt (int (length ?vals)))"
      "map_of p ''raw'' = Some (PyList ?vals)"
      "map_of p ''data'' = Some (PyDict (map_values ?vals))"
    by (simp_all add: p)
  have long: "5 < length ?vals \<longrightarrow>
              5 < int (length ?vals) \<and>
              map fst (map_values ?vals) = [''nombre'', ''rut'', ''genero'', ''direccion'', ''comuna''] \<and>
              ?vals = map snd (map_values ?vals) @ drop 5 ?vals \<and> drop 5 ?vals \<noteq> []"
  proof
    assume l: "5 < length ?vals"
    then have "5 \<le> length ?vals" by simp
    from map_values_long [OF this] l
    show "5 < int (length ?vals) \<and>
              map fst (map_values ?vals) = [''nombre'', ''rut'', ''genero'', ''direccion'', ''comuna''] \<and>
              ?vals = map snd (map_values ?vals) @ drop 5 ?vals \<and> drop 5 ?vals \<noteq> []"
      by simp
  qed
  show ?thesis
  proof (intro exI conjI)
    show "format_rut_lenient rut = Some formatted" by (rule f)
    show "(\<exists>status. fetch_via_requests env ?url = Response status html \<and>
                      status \<noteq> 403 \<and> ensure_has_tds html) \<or>
            (escalates (fetch_via_requests env ?url) \<and> fetch_via_playwright env ?url = Html html)"
      by (rule h)
    show "?vals = extract_first_tr_values html" by (rule refl)
    show "map_of p ''columnas'' = Some (PyInt (int (length ?vals)))" by (rule m(1))
    show "map_of p ''raw'' = Some (PyList ?vals)" by (rule m(2))
    show "map_of p ''data'' = Some (PyDict (map_values ?vals))" by (rule m(3))
    show "5 < length ?vals \<longrightarrow>
              5 < int (length ?vals) \<and>
              map fst (map_values ?vals) = [''nombre'', ''rut'', ''genero'', ''direccion'', ''comuna''] \<and>
              ?vals = map snd (map_values ?vals) @ drop 5 ?vals \<and> drop 5 ?vals \<noteq> []"
      by (rule long)
  qed
qed

theorem get_rut_columnas_raw_witness:
  "\<exists>formatted html vals.
     format_rut_lenient ''15421741K'' = Some formatted \<and>
     ((\<exists>status. fetch_via_requests
          \<lparr>fetch_via_requests =
             (\<lambda>u. Response 200 ''<tr><td>A</td><td>B</td><td>C</td><td>D</td><td>E</td><td>F</td></tr>''),
           fetch_via_playwright = (\<lambda>u. Html [])\<rparr> (RUT_URL formatted) = Response status html \<and>
                status \<noteq> 403 \<and> ensure_has_tds html) \<or>
      (escalates (fetch_via_requests
          \<lparr>fetch_via_requests =
             (\<lambda>u. Response 200 ''<tr><td>A</td><td>B</td><td>C</td><td>D</td><td>E</td><td>F</td></tr>''),
           fetch_via_playwright = (\<lambda>u. Html [])\<rparr> (RUT_URL formatted)) \<and>
       fetch_via_playwright
          \<lparr>fetch_via_requests =
             (\<lambda>u. Response 200 ''<tr><td>A</td><td>B</td><td>C</td><td>D</td><td>E</td><td>F</td></tr>''),
           fetch_via_playwright = (\<lambda>u. Html [])\<rparr> (RUT_URL formatted) = Html html)) \<and>
     vals = extract_first_tr_values html \<and>
     map_of [(''source'', PyStr ''https://r.rutificador.co/pr/15.421.741-K''),
             (''rut_consultado'', PyStr ''15.421.741-K''), (''columnas'', PyInt 6),
             (''data'', PyDict [(''nombre'', ''A''), (''rut'', ''B''), (''genero'', ''C''),
                                (''direccion'', ''D''), (''comuna'', ''E'')]),
             (''raw'', PyList [''A'', ''B'', ''C'', ''D'', ''E'', ''F''])] ''columnas'' =
       Some (PyInt (int (length vals))) \<and>
     map_of [(''source'', PyStr ''https://r.rutificador.co/pr/15.421.741-K''),
             (''rut_consultado'', PyStr ''15.421.741-K''), (''columnas'', PyInt 6),
             (''data'', PyDict [(''nombre'', ''A''), (''rut'', ''B''), (''genero'', ''C''),
                                (''direccion'', ''D''), (''comuna'', ''E'')]),
             (''raw'', PyList [''A'', ''B'', ''C'', ''D'', ''E'', ''F''])] ''raw'' =
       Some (PyList vals) \<and>
     map_of [(''source'', PyStr ''https://r.rutificador.co/pr/15.421.741-K''),
             (''rut_consultado'', PyStr ''15.421.741-K''), (''columnas'', PyInt 6),
             (''data'', PyDict [(''nombre'', ''A''), (''rut'', ''B''), (''genero'', ''C''),
                                (''direccion'', ''D''), (''comuna'', ''E'')]),
             (''raw'', PyList [''A'', ''B'', ''C'', ''D'', ''E'', ''F''])] ''data'' =
       Some (PyDict (map_values vals)) \<and>
     (5 < length vals \<longrightarrow>
        5 < int (length vals) \<and>
        map fst (map_values vals) = [''nombre'', ''rut'', ''genero'', ''direccion'', ''comuna''] \<and>
        vals = map snd (map_values vals) @ drop 5 vals \<and> drop 5 vals \<noteq> [])"
proof -
  have g: "get_rut
      \<lparr>fetch_via_requests =
         (\<lambda>u. Response 200 ''<tr><td>A</td><td>B</td><td>C</td><td>D</td><td>E</td><td>F</td></tr>''),
       fetch_via_playwright = (\<lambda>u. Html [])\<rparr> ''15421741K'' False =
     ([Requests ''https://r.rutificador.co/pr/15.421.741-K''],
      Returned [(''source'', PyStr ''https://r.rutificador.co/pr/15.421.741-K''),
             (''rut_consultado'', PyStr ''15.421.741-K''), (''columnas'', PyInt 6),
             (''data'', PyDict [(''nombre'', ''A''), (''rut'', ''B''), (''genero'', ''C''),
                                (''direccion'', ''D''), (''comuna'', ''E'')]),
             (''raw'', PyList [''A'', ''B'', ''C'', ''D'', ''E'', ''F''])])"
    by code_simp
  have m: "map_of [(''source'', PyStr ''https://r.rutificador.co/pr/15.421.741-K''),
             (''rut_consultado'', PyStr ''15.421.741-K''), (''columnas'', PyInt 6),
             (''data'', PyDict [(''nombre'', ''A''), (''rut'', ''B''), (''genero'', ''C''),
                                (''direccion'', ''D''), (''comuna'', ''E'')]),
             (''raw'', PyList [''A'', ''B'', ''C'', ''D'', ''E'', ''F''])] ''columnas'' \<noteq> None"
    by simp
  show ?thesis by (rule get_rut_columnas_raw [OF g m])
qed


end
